theory Spec2Isabelle
  imports Main
begin

section \<open>The generic interactive shell of the cogserver\<close>

text \<open>
  This theory embeds \<^verbatim>\<open>opencog/cogserver/shell/GenericShell.cc\<close>: the line discipline
  that classifies one received line, the output relay \<^verbatim>\<open>poll_output\<close>, and the entry point
  \<^verbatim>\<open>eval\<close>, as they run on the thread that receives lines from the socket.

  The class declaration (\<^verbatim>\<open>GenericShell.h\<close>), the evaluator interface
  (\<^verbatim>\<open>GenericEval.h\<close>) and the socket (\<^verbatim>\<open>ConsoleSocket.h\<close>) are not part of the sources
  at hand. The fields of the shell are the ones the member functions read and write. The
  evaluator is a parameter: a table of its virtual methods over an arbitrary evaluator
  state. Calls made on the socket, the evaluator's commands and the creation and joining of
  the two worker threads are recorded, in order, in a log kept in the shell state.
\<close>

subsection \<open>Protocol bytes\<close>

text \<open>The RFC 854 and RFC 860 bytes and the ASCII control characters the file defines.\<close>

definition IAC :: char where "IAC = CHR 0xFF"
definition IP :: char where "IP = CHR 0xF4"
definition AO :: char where "AO = CHR 0xF5"
definition EL :: char where "EL = CHR 0xF8"
definition WILL :: char where "WILL = CHR 0xFB"
definition TIMING_MARK :: char where "TIMING_MARK = CHR 0x06"

definition EOT :: char where "EOT = CHR 0x04"
definition SYN :: char where "SYN = CHR 0x16"
definition CAN :: char where "CAN = CHR 0x18"
definition ESC :: char where "ESC = CHR 0x1B"

definition NL :: char where "NL = CHR 0x0A"

subsection \<open>Evaluator, threads, log and shell state\<close>

text \<open>
  The evaluator is reached through a pointer to an abstract class. Its methods are taken as
  a table of functions over the evaluator's own state \<open>'e\<close>. \<^verbatim>\<open>eval_expr\<close> is not in the
  table: it runs on the evaluation worker, not on the calling thread, and its invocation is
  recorded in the log when the worker is created.
\<close>

record 'e GenericEval =
  begin_eval :: "'e \<Rightarrow> 'e"
  poll_result :: "'e \<Rightarrow> string \<times> 'e"
  interrupt :: "'e \<Rightarrow> 'e"
  clear_pending :: "'e \<Rightarrow> 'e"
  input_pending :: "'e \<Rightarrow> bool"
  eval_error :: "'e \<Rightarrow> bool"

text \<open>
  The two lambdas that are run as threads. \<open>Eval_wrapper input\<close> is the worker whose body
  is \<^verbatim>\<open>thread_init(); evaluator->eval_expr(input);\<close> (with \<^verbatim>\<open>thread_init\<close> a no-op), so each
  started \<open>Eval_wrapper input\<close> is exactly one invocation of \<^verbatim>\<open>eval_expr\<close>, with argument
  \<open>input\<close>. \<open>Poll_wrapper\<close> is the worker that relays \<^verbatim>\<open>poll_output\<close> to the socket.
\<close>

datatype thread = Eval_wrapper string | Poll_wrapper

datatype call =
    Interrupt
  | Clear_pending
  | Begin_eval
  | Start thread
  | Join thread
  | Send string
  | SendPrompt
  | SetShell_this
  | SetShell_null

datatype error = Null_pointer | Assertion_failed string

record 'e shell =
  show_output :: bool
  show_prompt :: bool
  normal_prompt :: string
  pending_prompt :: string
  abort_prompt :: string
  evaluator :: "'e option"
  socket :: "nat option"
  evalthr :: "thread option"
  pollthr :: "thread option"
  self_destruct :: bool
  eval_done :: bool
  poll_needed :: bool
  pending_output :: string
  deleted :: bool
  calls :: "call list"

text \<open>The arguments of the \<^verbatim>\<open>eval_expr\<close> invocations recorded in a log, in order.\<close>

fun eval_expr_calls :: "call list \<Rightarrow> string list" where
  "eval_expr_calls [] = []"
| "eval_expr_calls (Start (Eval_wrapper input) # cs) = input # eval_expr_calls cs"
| "eval_expr_calls (c # cs) = eval_expr_calls cs"

subsection \<open>Constructor, destructor and setters\<close>

text \<open>
  The constructor leaves \<^verbatim>\<open>eval_done\<close> and \<^verbatim>\<open>poll_needed\<close> uninitialised; their
  indeterminate values are the two arguments.
\<close>

definition GenericShell :: "bool \<Rightarrow> bool \<Rightarrow> 'e shell" where
  "GenericShell ed pn =
     \<lparr> show_output = True,
       show_prompt = True,
       normal_prompt = ''> '',
       pending_prompt = ''... '',
       abort_prompt = (((''asdf''[0 := IAC])[1 := WILL])[2 := TIMING_MARK])[3 := NL],
       evaluator = None,
       socket = None,
       evalthr = None,
       pollthr = None,
       self_destruct = False,
       eval_done = ed,
       poll_needed = pn,
       pending_output = [],
       deleted = False,
       calls = [] \<rparr>"

definition dtor :: "'e shell \<Rightarrow> 'e shell" where
  "dtor s =
     (let s1 = (case evalthr s of
                  Some t \<Rightarrow> s\<lparr>calls := calls s @ [Join t], evalthr := None\<rparr>
                | None \<Rightarrow> s);
          s2 = (case pollthr s1 of
                  Some t \<Rightarrow> s1\<lparr>calls := calls s1 @ [Join t], pollthr := None\<rparr>
                | None \<Rightarrow> s1)
      in s2\<lparr>deleted := True\<rparr>)"

definition hush_output :: "bool \<Rightarrow> 'e shell \<Rightarrow> 'e shell" where
  "hush_output hush s = s\<lparr>show_output := \<not> hush\<rparr>"

definition hush_prompt :: "bool \<Rightarrow> 'e shell \<Rightarrow> 'e shell" where
  "hush_prompt hush s = s\<lparr>show_prompt := \<not> hush\<rparr>"

definition get_prompt :: "'e GenericEval \<Rightarrow> 'e shell \<Rightarrow> error + string" where
  "get_prompt E s =
     (if \<not> show_prompt s then Inr []
      else case evaluator s of
             None \<Rightarrow> Inl Null_pointer
           | Some e \<Rightarrow>
               if input_pending E e then Inr (pending_prompt s)
               else Inr (normal_prompt s))"

text \<open>
  Modelled from the spec: the macro \<^verbatim>\<open>OC_ASSERT\<close> of \<^verbatim>\<open>opencog/util/oc_assert.h\<close> is
  missing from the sources. The specification calls a failed assertion a fatal
  precondition failure that aborts at once and is never silently ignored: the failure is
  an error value carrying the message, and nothing after the assertion runs.
\<close>

definition OC_ASSERT :: "bool \<Rightarrow> string \<Rightarrow> error + unit" where
  "OC_ASSERT cond msg = (if cond then Inr () else Inl (Assertion_failed msg))"

definition set_socket :: "nat \<Rightarrow> 'e shell \<Rightarrow> error + 'e shell" where
  "set_socket k s =
     (case OC_ASSERT (socket s = None) ''Shell already associated with socket!'' of
        Inl err \<Rightarrow> Inl err
      | Inr _ \<Rightarrow> Inr (s\<lparr>socket := Some k, calls := calls s @ [SetShell_this]\<rparr>))"

subsection \<open>Output relay\<close>

definition put_output :: "string \<Rightarrow> 'e shell \<Rightarrow> 'e shell" where
  "put_output str s = s\<lparr>pending_output := pending_output s @ str\<rparr>"

definition poll_output :: "'e GenericEval \<Rightarrow> 'e shell \<Rightarrow> error + (string \<times> 'e shell)" where
  "poll_output E s =
     (if 0 < length (pending_output s) then
        Inr (pending_output s, s\<lparr>pending_output := []\<rparr>)
      else case evaluator s of
        None \<Rightarrow> Inl Null_pointer
      | Some e \<Rightarrow>
          (case poll_result E e of
             (result, e1) \<Rightarrow>
               let s1 = s\<lparr>evaluator := Some e1\<rparr> in
               if 0 < length result then Inr (result, s1)
               else if eval_done s1 then Inr ([], s1)
               else
                 let s2 = s1\<lparr>eval_done := True\<rparr> in
                 if input_pending E e1 then
                   (if show_output s2 \<and> show_prompt s2 then Inr (pending_prompt s2, s2)
                    else Inr ([], s2))
                 else if show_output s2 \<or> eval_error E e1 then
                   (if show_prompt s2 then Inr (normal_prompt s2, s2)
                    else Inr ([], s2))
                 else Inr ([], s2)))"

subsection \<open>Evaluation and line discipline\<close>

definition do_eval :: "'e GenericEval \<Rightarrow> string \<Rightarrow> 'e shell \<Rightarrow> error + 'e shell" where
  "do_eval E input s =
     (let s1 = (case evalthr s of
                  Some t \<Rightarrow> s\<lparr>calls := calls s @ [Join t], evalthr := None\<rparr>
                | None \<Rightarrow> s);
          s2 = (case pollthr s1 of
                  Some t \<Rightarrow> s1\<lparr>calls := calls s1 @ [Join t], pollthr := None\<rparr>
                | None \<Rightarrow> s1);
          s3 = s2\<lparr>eval_done := False, poll_needed := True\<rparr>
      in case evaluator s3 of
           None \<Rightarrow> Inl Null_pointer
         | Some e \<Rightarrow>
             Inr (s3\<lparr>evaluator := Some (begin_eval E e),
                     evalthr := Some (Eval_wrapper input),
                     calls := calls s3 @ [Begin_eval, Start (Eval_wrapper input)]\<rparr>))"

text \<open>
  \<^verbatim>\<open>int i = len-2; int m = len-20;\<close> converts a \<^verbatim>\<open>size_t\<close> difference to a 32-bit
  \<^verbatim>\<open>int\<close>: the value is reduced modulo \<open>2 ^ 32\<close> into the signed range.
\<close>

definition to_int :: "int \<Rightarrow> int" where
  "to_int k = (k + 2 ^ 31) mod 2 ^ 32 - 2 ^ 31"

text \<open>
  The backward scan for a telnet command. The loop leaves \<^verbatim>\<open>line_discipline\<close> from two
  places; \<open>iac_scan\<close> returns which one was taken, and \<open>line_discipline\<close> below runs the
  statements of that branch.
\<close>

datatype iac_hit = Hit_abort | Hit_erase | No_hit

function iac_scan :: "string \<Rightarrow> int \<Rightarrow> int \<Rightarrow> iac_hit" where
  "iac_scan expr m i =
     (if m \<le> i then
        (if expr ! nat i = IAC then
           (if expr ! nat (i + 1) = IP \<or> expr ! nat (i + 1) = AO then Hit_abort
            else if expr ! nat (i + 1) = EL then Hit_erase
            else iac_scan expr m (i - 1))
         else iac_scan expr m (i - 1))
      else No_hit)"
  by pat_completeness auto
termination
  by (relation "measure (\<lambda>(expr, m, i). nat (i - m + 1))") auto

declare iac_scan.simps [simp del]

definition line_discipline :: "'e GenericEval \<Rightarrow> string \<Rightarrow> 'e shell \<Rightarrow> error + 'e shell" where
  "line_discipline E expr s =
     (let len = length expr in
      if 0 = len then do_eval E [NL] s
      else
        let i = to_int (int len - 2);
            m = to_int (int len - 20);
            m = (if m < 0 then 0 else m)
        in case iac_scan expr m i of
             Hit_abort \<Rightarrow>
               (case evaluator s of
                  None \<Rightarrow> Inl Null_pointer
                | Some e \<Rightarrow>
                    Inr (put_output (abort_prompt s)
                          (s\<lparr>evaluator := Some (clear_pending E (interrupt E e)),
                             calls := calls s @ [Interrupt, Clear_pending]\<rparr>)))
           | Hit_erase \<Rightarrow>
               (case get_prompt E s of
                  Inl err \<Rightarrow> Inl err
                | Inr p \<Rightarrow> Inr (put_output p s))
           | No_hit \<Rightarrow>
               let c = expr ! (len - 1) in
               if SYN = c \<or> CAN = c \<or> ESC = c then
                 (case evaluator s of
                    None \<Rightarrow> Inl Null_pointer
                  | Some e \<Rightarrow>
                      Inr (put_output (normal_prompt s)
                            (put_output [NL]
                              (s\<lparr>evaluator := Some (clear_pending E (interrupt E e)),
                                 calls := calls s @ [Interrupt, Clear_pending]\<rparr>))))
               else
                 (case evaluator s of
                    None \<Rightarrow> Inl Null_pointer
                  | Some e \<Rightarrow>
                      if False = input_pending E e \<and>
                         (EOT = expr ! (len - 1) \<or> (1 = len \<and> CHR ''.'' = expr ! 0))
                      then
                        let s1 = put_output [] (s\<lparr>self_destruct := True\<rparr>)
                        in Inr (if show_prompt s1
                                then put_output (''Exiting the shell'' @ [NL]) s1
                                else s1)
                      else do_eval E (expr @ [NL]) s))"

text \<open>
  The entry point, called once for each received line. The stdout duplication is compiled
  out (\<^verbatim>\<open>PERFORM_STDOUT_DUPLICATION\<close> is not defined). The polling worker is created and
  recorded in the log; its body runs on another thread and is not run here.
\<close>

definition eval :: "'e GenericEval \<Rightarrow> string \<Rightarrow> 'e shell \<Rightarrow> error + 'e shell" where
  "eval E expr s0 =
     (case line_discipline E expr (s0\<lparr>poll_needed := False\<rparr>) of
        Inl err \<Rightarrow> Inl err
      | Inr s1 \<Rightarrow>
          (case (if \<not> poll_needed s1 then
                   (case poll_output E s1 of
                      Inl err \<Rightarrow> Inl err
                    | Inr (retstr, s2) \<Rightarrow>
                        (case socket s2 of
                           None \<Rightarrow> Inl Null_pointer
                         | Some k \<Rightarrow> Inr (s2\<lparr>calls := calls s2 @ [Send retstr]\<rparr>)))
                 else
                   let s2 = (case pollthr s1 of
                               Some t \<Rightarrow> s1\<lparr>calls := calls s1 @ [Join t]\<rparr>
                             | None \<Rightarrow> s1)
                   in Inr (s2\<lparr>pollthr := Some Poll_wrapper,
                              calls := calls s2 @ [Start Poll_wrapper]\<rparr>))
           of
             Inl err \<Rightarrow> Inl err
           | Inr s3 \<Rightarrow>
               if self_destruct s3 then
                 (case socket s3 of
                    None \<Rightarrow> Inl Null_pointer
                  | Some k \<Rightarrow> Inr (dtor (s3\<lparr>calls := calls s3 @ [SendPrompt, SetShell_null]\<rparr>)))
               else Inr s3))"

subsection \<open>Vocabulary of the statements\<close>

text \<open>
  The trailing window of a line is its last 20 bytes. A two-byte telnet command starts at
  position \<open>j\<close> of the window when the byte at \<open>j\<close> is IAC and the next byte, still in the
  line, is the command: \<open>window expr\<close> is the set of such starting positions.
\<close>

definition window :: "string \<Rightarrow> nat set" where
  "window expr = {length expr - 20 ..< length expr - 1}"

definition abort_at :: "string \<Rightarrow> nat \<Rightarrow> bool" where
  "abort_at expr j \<longleftrightarrow> expr ! j = IAC \<and> (expr ! (j + 1) = IP \<or> expr ! (j + 1) = AO)"

definition erase_at :: "string \<Rightarrow> nat \<Rightarrow> bool" where
  "erase_at expr j \<longleftrightarrow> expr ! j = IAC \<and> expr ! (j + 1) = EL"

text \<open>The joins that \<^verbatim>\<open>do_eval\<close> performs on the worker handles that are still set.\<close>

definition join_calls :: "'e shell \<Rightarrow> call list" where
  "join_calls s =
     (case evalthr s of Some t \<Rightarrow> [Join t] | None \<Rightarrow> []) @
     (case pollthr s of Some t \<Rightarrow> [Join t] | None \<Rightarrow> [])"

text \<open>
  \<open>poll_chunks E n s\<close> is \<open>n\<close> successive calls of \<^verbatim>\<open>poll_output\<close> with nothing in
  between, and the chunks they return. \<open>quiet E n e\<close> says that the evaluator, from state
  \<open>e\<close>, answers the next \<open>n\<close> calls of \<^verbatim>\<open>poll_result\<close> with the empty string.
\<close>

fun poll_chunks :: "'e GenericEval \<Rightarrow> nat \<Rightarrow> 'e shell \<Rightarrow> error + (string list \<times> 'e shell)" where
  "poll_chunks E 0 s = Inr ([], s)"
| "poll_chunks E (Suc n) s =
     (case poll_output E s of
        Inl err \<Rightarrow> Inl err
      | Inr (r, s1) \<Rightarrow>
          (case poll_chunks E n s1 of
             Inl err \<Rightarrow> Inl err
           | Inr (rs, s2) \<Rightarrow> Inr (r # rs, s2)))"

fun quiet :: "'e GenericEval \<Rightarrow> nat \<Rightarrow> 'e \<Rightarrow> bool" where
  "quiet E 0 e = True"
| "quiet E (Suc n) e = (fst (poll_result E e) = [] \<and> quiet E n (snd (poll_result E e)))"

subsection \<open>A concrete evaluator and session\<close>

text \<open>
  A small evaluator for the closed instances of the theorems: its state holds the
  pending-input flag, the error flag and the buffered output; \<^verbatim>\<open>poll_result\<close> hands the
  buffer over and empties it, \<^verbatim>\<open>clear_pending\<close> drops the pending input.
\<close>

record toy =
  toy_pending :: bool
  toy_error :: bool
  toy_output :: string

definition toy_eval :: "toy GenericEval" where
  "toy_eval =
     \<lparr> begin_eval = (\<lambda>e. e\<lparr>toy_error := False\<rparr>),
       poll_result = (\<lambda>e. (toy_output e, e\<lparr>toy_output := []\<rparr>)),
       interrupt = (\<lambda>e. e),
       clear_pending = (\<lambda>e. e\<lparr>toy_pending := False\<rparr>),
       input_pending = toy_pending,
       eval_error = toy_error \<rparr>"

definition idle :: toy where
  "idle = \<lparr> toy_pending = False, toy_error = False, toy_output = [] \<rparr>"

definition midway :: toy where
  "midway = \<lparr> toy_pending = True, toy_error = False, toy_output = [] \<rparr>"

definition failed :: toy where
  "failed = \<lparr> toy_pending = False, toy_error = True, toy_output = [] \<rparr>"

definition answering :: toy where
  "answering = \<lparr> toy_pending = False, toy_error = False, toy_output = ''3'' \<rparr>"

text \<open>A freshly constructed shell with an evaluator installed and bound to socket 0.\<close>

definition session :: "toy \<Rightarrow> toy shell" where
  "session e = (GenericShell False False)\<lparr>evaluator := Some e, socket := Some 0\<rparr>"

section \<open>Auxiliary facts\<close>

lemmas byte_defs = IAC_def IP_def AO_def EL_def WILL_def TIMING_MARK_def
  EOT_def SYN_def CAN_def ESC_def NL_def

subsection \<open>The backward scan\<close>

lemma to_int_id: "- (2 ^ 31) \<le> k \<Longrightarrow> k < 2 ^ 31 \<Longrightarrow> to_int k = k"
  by (simp add: to_int_def)

lemma EL_neq: "EL \<noteq> IP" "EL \<noteq> AO"
  by (simp_all add: byte_defs)

lemma abort_not_erase: "abort_at expr j \<Longrightarrow> \<not> erase_at expr j"
  using EL_neq by (auto simp: abort_at_def erase_at_def)

lemma iac_scan_step:
  assumes "0 \<le> m" "m \<le> i"
  shows "iac_scan expr m i =
           (if abort_at expr (nat i) then Hit_abort
            else if erase_at expr (nat i) then Hit_erase
            else iac_scan expr m (i - 1))"
proof -
  have "nat (i + 1) = nat i + 1" using assms by simp
  then show ?thesis
    using assms by (subst iac_scan.simps) (simp add: abort_at_def erase_at_def)
qed

lemma iac_scan_stop: "\<not> m \<le> i \<Longrightarrow> iac_scan expr m i = No_hit"
  by (subst iac_scan.simps) simp

lemma iac_scan_No_hit_aux:
  "0 \<le> m \<Longrightarrow> n = nat (i + 1 - m) \<Longrightarrow> iac_scan expr m i = No_hit \<longleftrightarrow>
     (\<forall>j. m \<le> j \<and> j \<le> i \<longrightarrow> \<not> abort_at expr (nat j) \<and> \<not> erase_at expr (nat j))"
proof (induction n arbitrary: i)
  case 0
  then have "\<not> m \<le> i" by simp
  then show ?case by (auto simp: iac_scan_stop)
next
  case (Suc n)
  then have True: "m \<le> i" and n: "n = nat (i - 1 + 1 - m)" by simp_all
  note ih = Suc.IH [OF Suc.prems(1) n]
  show ?case
  proof (cases "abort_at expr (nat i) \<or> erase_at expr (nat i)")
    case hit: True
    then have "iac_scan expr m i \<noteq> No_hit"
      using True Suc.prems(1) by (auto simp: iac_scan_step)
    then show ?thesis using hit True by blast
  next
    case nohit: False
    then have rec: "iac_scan expr m i = iac_scan expr m (i - 1)"
      using True Suc.prems(1) by (simp add: iac_scan_step)
    have "(\<forall>j. m \<le> j \<and> j \<le> i - 1 \<longrightarrow> \<not> abort_at expr (nat j) \<and> \<not> erase_at expr (nat j)) \<longleftrightarrow>
          (\<forall>j. m \<le> j \<and> j \<le> i \<longrightarrow> \<not> abort_at expr (nat j) \<and> \<not> erase_at expr (nat j))"
      (is "?L \<longleftrightarrow> ?R")
    proof
      assume l: ?L
      show ?R
      proof (intro allI impI)
        fix j assume "m \<le> j \<and> j \<le> i"
        then have "j = i \<or> (m \<le> j \<and> j \<le> i - 1)" by auto
        then show "\<not> abort_at expr (nat j) \<and> \<not> erase_at expr (nat j)"
          using nohit l by blast
      qed
    next
      assume ?R
      then show ?L by auto
    qed
    then show ?thesis unfolding rec ih .
  qed
qed

lemma iac_scan_Hit_abort_aux:
  "0 \<le> m \<Longrightarrow> n = nat (i + 1 - m) \<Longrightarrow> iac_scan expr m i = Hit_abort \<longleftrightarrow>
     (\<exists>j. m \<le> j \<and> j \<le> i \<and> abort_at expr (nat j) \<and>
          (\<forall>k. j < k \<and> k \<le> i \<longrightarrow> \<not> erase_at expr (nat k)))"
proof (induction n arbitrary: i)
  case 0
  then have "\<not> m \<le> i" by simp
  then show ?case by (auto simp: iac_scan_stop)
next
  case (Suc n)
  then have True: "m \<le> i" and n: "n = nat (i - 1 + 1 - m)" by simp_all
  note ih = Suc.IH [OF Suc.prems(1) n]
  consider (a) "abort_at expr (nat i)" | (e) "erase_at expr (nat i)"
    | (n) "\<not> abort_at expr (nat i)" "\<not> erase_at expr (nat i)" by blast
  then show ?case
  proof cases
    case a
    then show ?thesis using True Suc.prems(1) by (auto simp: iac_scan_step)
  next
    case e
    then have "iac_scan expr m i = Hit_erase"
      using True Suc.prems(1) abort_not_erase by (auto simp: iac_scan_step)
    moreover have "\<not> (\<exists>j. m \<le> j \<and> j \<le> i \<and> abort_at expr (nat j) \<and>
        (\<forall>k. j < k \<and> k \<le> i \<longrightarrow> \<not> erase_at expr (nat k)))"
      using e abort_not_erase by (metis order_le_less order_refl)
    ultimately show ?thesis by simp
  next
    case n
    then have rec: "iac_scan expr m i = iac_scan expr m (i - 1)"
      using True Suc.prems(1) by (simp add: iac_scan_step)
    have "(\<exists>j. m \<le> j \<and> j \<le> i - 1 \<and> abort_at expr (nat j) \<and>
        (\<forall>k. j < k \<and> k \<le> i - 1 \<longrightarrow> \<not> erase_at expr (nat k))) \<longleftrightarrow>
        (\<exists>j. m \<le> j \<and> j \<le> i \<and> abort_at expr (nat j) \<and>
        (\<forall>k. j < k \<and> k \<le> i \<longrightarrow> \<not> erase_at expr (nat k)))" (is "?L \<longleftrightarrow> ?R")
    proof
      assume ?L
      then obtain j where j: "m \<le> j" "j \<le> i - 1" "abort_at expr (nat j)"
        "\<forall>k. j < k \<and> k \<le> i - 1 \<longrightarrow> \<not> erase_at expr (nat k)" by blast
      have "\<forall>k. j < k \<and> k \<le> i \<longrightarrow> \<not> erase_at expr (nat k)"
      proof (intro allI impI)
        fix k assume "j < k \<and> k \<le> i"
        then have "k = i \<or> (j < k \<and> k \<le> i - 1)" by auto
        then show "\<not> erase_at expr (nat k)" using n j(4) by blast
      qed
      with j show ?R by (intro exI [of _ j]) auto
    next
      assume ?R
      then obtain j where j: "m \<le> j" "j \<le> i" "abort_at expr (nat j)"
        "\<forall>k. j < k \<and> k \<le> i \<longrightarrow> \<not> erase_at expr (nat k)" by blast
      have "j \<noteq> i" using j(3) n by auto
      then have "j \<le> i - 1" using j(2) by simp
      moreover have "\<forall>k. j < k \<and> k \<le> i - 1 \<longrightarrow> \<not> erase_at expr (nat k)"
        using j(4) by auto
      ultimately show ?L using j by blast
    qed
    then show ?thesis unfolding rec ih .
  qed
qed

lemma erase_not_abort: "erase_at expr j \<Longrightarrow> \<not> abort_at expr j"
  using abort_not_erase by blast

lemma iac_scan_Hit_erase_aux:
  "0 \<le> m \<Longrightarrow> n = nat (i + 1 - m) \<Longrightarrow> iac_scan expr m i = Hit_erase \<longleftrightarrow>
     (\<exists>j. m \<le> j \<and> j \<le> i \<and> erase_at expr (nat j) \<and>
          (\<forall>k. j < k \<and> k \<le> i \<longrightarrow> \<not> abort_at expr (nat k)))"
proof (induction n arbitrary: i)
  case 0
  then have "\<not> m \<le> i" by simp
  then show ?case by (auto simp: iac_scan_stop)
next
  case (Suc n)
  then have True: "m \<le> i" and n: "n = nat (i - 1 + 1 - m)" by simp_all
  note ih = Suc.IH [OF Suc.prems(1) n]
  consider (a) "erase_at expr (nat i)" | (e) "abort_at expr (nat i)"
    | (n) "\<not> erase_at expr (nat i)" "\<not> abort_at expr (nat i)" by blast
  then show ?case
  proof cases
    case a
    then have "iac_scan expr m i = Hit_erase"
      using True Suc.prems(1) erase_not_abort by (auto simp: iac_scan_step)
    moreover have "\<exists>j. m \<le> j \<and> j \<le> i \<and> erase_at expr (nat j) \<and>
        (\<forall>k. j < k \<and> k \<le> i \<longrightarrow> \<not> abort_at expr (nat k))"
      using a True by (intro exI [of _ i]) auto
    ultimately show ?thesis by simp
  next
    case e
    then have "iac_scan expr m i = Hit_abort"
      using True Suc.prems(1) erase_not_abort by (auto simp: iac_scan_step)
    moreover have "\<not> (\<exists>j. m \<le> j \<and> j \<le> i \<and> erase_at expr (nat j) \<and>
        (\<forall>k. j < k \<and> k \<le> i \<longrightarrow> \<not> abort_at expr (nat k)))"
      using e erase_not_abort by (metis order_le_less order_refl)
    ultimately show ?thesis by simp
  next
    case n
    then have rec: "iac_scan expr m i = iac_scan expr m (i - 1)"
      using True Suc.prems(1) by (simp add: iac_scan_step)
    have "(\<exists>j. m \<le> j \<and> j \<le> i - 1 \<and> erase_at expr (nat j) \<and>
        (\<forall>k. j < k \<and> k \<le> i - 1 \<longrightarrow> \<not> abort_at expr (nat k))) \<longleftrightarrow>
        (\<exists>j. m \<le> j \<and> j \<le> i \<and> erase_at expr (nat j) \<and>
        (\<forall>k. j < k \<and> k \<le> i \<longrightarrow> \<not> abort_at expr (nat k)))" (is "?L \<longleftrightarrow> ?R")
    proof
      assume ?L
      then obtain j where j: "m \<le> j" "j \<le> i - 1" "erase_at expr (nat j)"
        "\<forall>k. j < k \<and> k \<le> i - 1 \<longrightarrow> \<not> abort_at expr (nat k)" by blast
      have "\<forall>k. j < k \<and> k \<le> i \<longrightarrow> \<not> abort_at expr (nat k)"
      proof (intro allI impI)
        fix k assume "j < k \<and> k \<le> i"
        then have "k = i \<or> (j < k \<and> k \<le> i - 1)" by auto
        then show "\<not> abort_at expr (nat k)" using n j(4) by blast
      qed
      with j show ?R by (intro exI [of _ j]) auto
    next
      assume ?R
      then obtain j where j: "m \<le> j" "j \<le> i" "erase_at expr (nat j)"
        "\<forall>k. j < k \<and> k \<le> i \<longrightarrow> \<not> abort_at expr (nat k)" by blast
      have "j \<noteq> i" using j(3) n by auto
      then have "j \<le> i - 1" using j(2) by simp
      moreover have "\<forall>k. j < k \<and> k \<le> i - 1 \<longrightarrow> \<not> abort_at expr (nat k)"
        using j(4) by auto
      ultimately show ?L using j by blast
    qed
    then show ?thesis unfolding rec ih .
  qed
qed


lemma scan_bounds:
  assumes "0 < length expr" "length expr < 2 ^ 31"
  shows "to_int (int (length expr) - 2) = int (length expr) - 2"
    and "(if to_int (int (length expr) - 20) < 0 then 0 else to_int (int (length expr) - 20))
           = int (length expr - 20)"
proof -
  have len: "int (length expr) < 2 ^ 31" using assms(2) by (simp flip: of_nat_less_iff)
  show "to_int (int (length expr) - 2) = int (length expr) - 2"
    using assms(1) len by (intro to_int_id) auto
  have "to_int (int (length expr) - 20) = int (length expr) - 20"
    using len by (intro to_int_id) auto
  then show "(if to_int (int (length expr) - 20) < 0 then 0 else to_int (int (length expr) - 20))
           = int (length expr - 20)" by auto
qed

lemma window_No_hit:
  "iac_scan expr (int (length expr - 20)) (int (length expr) - 2) = No_hit \<longleftrightarrow>
     (\<forall>j\<in>window expr. \<not> abort_at expr j \<and> \<not> erase_at expr j)"
proof -
  have "iac_scan expr (int (length expr - 20)) (int (length expr) - 2) = No_hit \<longleftrightarrow>
     (\<forall>j. int (length expr - 20) \<le> j \<and> j \<le> int (length expr) - 2 \<longrightarrow>
        \<not> abort_at expr (nat j) \<and> \<not> erase_at expr (nat j))"
    by (rule iac_scan_No_hit_aux) simp_all
  also have "\<dots> \<longleftrightarrow> (\<forall>j\<in>window expr. \<not> abort_at expr j \<and> \<not> erase_at expr j)"
  proof (intro iffI ballI allI impI)
    fix j assume h: "\<forall>j. int (length expr - 20) \<le> j \<and> j \<le> int (length expr) - 2 \<longrightarrow>
        \<not> abort_at expr (nat j) \<and> \<not> erase_at expr (nat j)" and j: "j \<in> window expr"
    from j have "int (length expr - 20) \<le> int j \<and> int j \<le> int (length expr) - 2"
      by (auto simp: window_def)
    with h have "\<not> abort_at expr (nat (int j)) \<and> \<not> erase_at expr (nat (int j))" by blast
    then show "\<not> abort_at expr j \<and> \<not> erase_at expr j" by simp
  next
    fix j :: int
    assume h: "\<forall>j\<in>window expr. \<not> abort_at expr j \<and> \<not> erase_at expr j"
      and j: "int (length expr - 20) \<le> j \<and> j \<le> int (length expr) - 2"
    from j have "nat j \<in> window expr" by (auto simp: window_def)
    with h show "\<not> abort_at expr (nat j) \<and> \<not> erase_at expr (nat j)" by blast
  qed
  finally show ?thesis .
qed

lemma window_Hit:
  assumes j: "j \<in> window expr"
  shows "abort_at expr j \<Longrightarrow> \<forall>k\<in>window expr. j < k \<longrightarrow> \<not> erase_at expr k \<Longrightarrow>
           iac_scan expr (int (length expr - 20)) (int (length expr) - 2) = Hit_abort"
    and "erase_at expr j \<Longrightarrow> \<forall>k\<in>window expr. j < k \<longrightarrow> \<not> abort_at expr k \<Longrightarrow>
           iac_scan expr (int (length expr - 20)) (int (length expr) - 2) = Hit_erase"
proof -
  from j have b: "int (length expr - 20) \<le> int j" "int j \<le> int (length expr) - 2"
    by (auto simp: window_def)
  have later: "nat k \<in> window expr \<and> j < nat k"
    if "int j < k \<and> k \<le> int (length expr) - 2" for k
    using that j by (auto simp: window_def)
  {
    assume a: "abort_at expr j" and n: "\<forall>k\<in>window expr. j < k \<longrightarrow> \<not> erase_at expr k"
    have "\<forall>k. int j < k \<and> k \<le> int (length expr) - 2 \<longrightarrow> \<not> erase_at expr (nat k)"
      using later n by blast
    with a b have "\<exists>i. int (length expr - 20) \<le> i \<and> i \<le> int (length expr) - 2 \<and>
        abort_at expr (nat i) \<and>
        (\<forall>k. i < k \<and> k \<le> int (length expr) - 2 \<longrightarrow> \<not> erase_at expr (nat k))"
      by (intro exI [of _ "int j"]) simp
    then show "iac_scan expr (int (length expr - 20)) (int (length expr) - 2) = Hit_abort"
      by (subst iac_scan_Hit_abort_aux [OF _ refl]) simp_all
  }
  {
    assume a: "erase_at expr j" and n: "\<forall>k\<in>window expr. j < k \<longrightarrow> \<not> abort_at expr k"
    have "\<forall>k. int j < k \<and> k \<le> int (length expr) - 2 \<longrightarrow> \<not> abort_at expr (nat k)"
      using later n by blast
    with a b have "\<exists>i. int (length expr - 20) \<le> i \<and> i \<le> int (length expr) - 2 \<and>
        erase_at expr (nat i) \<and>
        (\<forall>k. i < k \<and> k \<le> int (length expr) - 2 \<longrightarrow> \<not> abort_at expr (nat k))"
      by (intro exI [of _ "int j"]) simp
    then show "iac_scan expr (int (length expr - 20)) (int (length expr) - 2) = Hit_erase"
      by (subst iac_scan_Hit_erase_aux [OF _ refl]) simp_all
  }
qed

subsection \<open>The branches of the line discipline\<close>

lemma eval_expr_calls_append:
  "eval_expr_calls (xs @ ys) = eval_expr_calls xs @ eval_expr_calls ys"
  by (induction xs rule: eval_expr_calls.induct) simp_all

lemma eval_expr_calls_join_calls: "eval_expr_calls (join_calls s) = []"
  by (simp add: join_calls_def split: option.splits)

lemma do_eval_Some:
  assumes "evaluator s = Some e"
  shows "do_eval E input s =
           Inr (s\<lparr>evaluator := Some (begin_eval E e),
                  evalthr := Some (Eval_wrapper input),
                  pollthr := None,
                  eval_done := False,
                  poll_needed := True,
                  calls := calls s @ join_calls s @ [Begin_eval, Start (Eval_wrapper input)]\<rparr>)"
  using assms by (cases "evalthr s"; cases "pollthr s") (simp_all add: do_eval_def join_calls_def)

lemma ld_empty: "line_discipline E [] s = do_eval E [NL] s"
  by (simp add: line_discipline_def)

lemma ld_unfold:
  assumes "expr \<noteq> []" "length expr < 2 ^ 31"
  shows "line_discipline E expr s =
     (case iac_scan expr (int (length expr - 20)) (int (length expr) - 2) of
             Hit_abort \<Rightarrow>
               (case evaluator s of
                  None \<Rightarrow> Inl Null_pointer
                | Some e \<Rightarrow>
                    Inr (put_output (abort_prompt s)
                          (s\<lparr>evaluator := Some (clear_pending E (interrupt E e)),
                             calls := calls s @ [Interrupt, Clear_pending]\<rparr>)))
           | Hit_erase \<Rightarrow>
               (case get_prompt E s of
                  Inl err \<Rightarrow> Inl err
                | Inr p \<Rightarrow> Inr (put_output p s))
           | No_hit \<Rightarrow>
               let c = expr ! (length expr - 1) in
               if SYN = c \<or> CAN = c \<or> ESC = c then
                 (case evaluator s of
                    None \<Rightarrow> Inl Null_pointer
                  | Some e \<Rightarrow>
                      Inr (put_output (normal_prompt s)
                            (put_output [NL]
                              (s\<lparr>evaluator := Some (clear_pending E (interrupt E e)),
                                 calls := calls s @ [Interrupt, Clear_pending]\<rparr>))))
               else
                 (case evaluator s of
                    None \<Rightarrow> Inl Null_pointer
                  | Some e \<Rightarrow>
                      if False = input_pending E e \<and>
                         (EOT = expr ! (length expr - 1) \<or> (1 = length expr \<and> CHR ''.'' = expr ! 0))
                      then
                        let s1 = put_output [] (s\<lparr>self_destruct := True\<rparr>)
                        in Inr (if show_prompt s1
                                then put_output (''Exiting the shell'' @ [NL]) s1
                                else s1)
                      else do_eval E (expr @ [NL]) s))"
proof -
  have pos: "0 < length expr" using assms(1) by simp
  have ne: "(0 = length expr) = False" using assms(1) by simp
  show ?thesis
    unfolding line_discipline_def
    apply (subst Let_def)
    apply (subst ne)
    apply (subst if_False)
    apply (subst Let_def)
    apply (subst Let_def)
    apply (subst Let_def)
    apply (subst scan_bounds(1) [OF pos assms(2)])
    apply (subst scan_bounds(2) [OF pos assms(2)])
    apply (rule refl)
    done
qed

lemma ld_abort:
  assumes "expr \<noteq> []" "length expr < 2 ^ 31" "evaluator s = Some e"
    and "j \<in> window expr" "abort_at expr j" "\<forall>k\<in>window expr. j < k \<longrightarrow> \<not> erase_at expr k"
  shows "line_discipline E expr s =
           Inr (s\<lparr>evaluator := Some (clear_pending E (interrupt E e)),
                  pending_output := pending_output s @ abort_prompt s,
                  calls := calls s @ [Interrupt, Clear_pending]\<rparr>)"
  unfolding ld_unfold [OF assms(1,2)] window_Hit(1) [OF assms(4,5,6)]
  using assms(3) by (simp add: put_output_def)

lemma ld_erase:
  assumes "expr \<noteq> []" "length expr < 2 ^ 31"
    and "j \<in> window expr" "erase_at expr j" "\<forall>k\<in>window expr. j < k \<longrightarrow> \<not> abort_at expr k"
  shows "line_discipline E expr s =
           (case get_prompt E s of Inl err \<Rightarrow> Inl err | Inr p \<Rightarrow> Inr (put_output p s))"
  unfolding ld_unfold [OF assms(1,2)] window_Hit(2) [OF assms(3,4,5)]
  by simp

lemma ld_no_hit:
  assumes "expr \<noteq> []" "length expr < 2 ^ 31" "evaluator s = Some e"
    and "\<forall>j\<in>window expr. \<not> abort_at expr j \<and> \<not> erase_at expr j"
  shows "line_discipline E expr s =
     (if last expr = SYN \<or> last expr = CAN \<or> last expr = ESC then
        Inr (s\<lparr>evaluator := Some (clear_pending E (interrupt E e)),
               pending_output := pending_output s @ [NL] @ normal_prompt s,
               calls := calls s @ [Interrupt, Clear_pending]\<rparr>)
      else if \<not> input_pending E e \<and> (last expr = EOT \<or> expr = ''.'') then
        Inr (s\<lparr>self_destruct := True,
               pending_output := pending_output s @
                 (if show_prompt s then ''Exiting the shell'' @ [NL] else [])\<rparr>)
      else do_eval E (expr @ [NL]) s)"
proof -
  have scan: "iac_scan expr (int (length expr - 20)) (int (length expr) - 2) = No_hit"
    using assms(4) by (simp add: window_No_hit)
  have l: "expr ! (length expr - 1) = last expr" using assms(1) by (simp add: last_conv_nth)
  have d: "(1 = length expr \<and> CHR ''.'' = expr ! 0) \<longleftrightarrow> expr = ''.''"
    by (cases expr) auto
  show ?thesis
    unfolding ld_unfold [OF assms(1,2)] scan l d
    using assms(3) by (auto simp: put_output_def Let_def)
qed

subsection \<open>The entry point\<close>

lemma ctor_abort_prompt:
  "abort_prompt (GenericShell ed pn) = [CHR 0xFF, CHR 0xFB, CHR 0x06, CHR 0x0A]"
  by (simp add: GenericShell_def byte_defs)

lemma join_calls_poll_needed [simp]: "join_calls (s\<lparr>poll_needed := b\<rparr>) = join_calls s"
  by (simp add: join_calls_def)

lemma eval_started:
  assumes "line_discipline E expr (s\<lparr>poll_needed := False\<rparr>) = do_eval E input (s\<lparr>poll_needed := False\<rparr>)"
    and "evaluator s = Some e" "\<not> self_destruct s"
  shows "\<exists>s'. eval E expr s = Inr s' \<and>
           calls s' = calls s @ join_calls s @
             [Begin_eval, Start (Eval_wrapper input), Start Poll_wrapper] \<and>
           eval_expr_calls (calls s') = eval_expr_calls (calls s) @ [input]"
proof -
  have "evaluator (s\<lparr>poll_needed := False\<rparr>) = Some e" using assms(2) by simp
  note d = do_eval_Some [OF this, of E input]
  show ?thesis
    unfolding eval_def assms(1) d using assms(3)
    by (simp add: eval_expr_calls_append eval_expr_calls_join_calls)
qed

lemma eval_relayed:
  assumes "line_discipline E expr (s\<lparr>poll_needed := False\<rparr>) =
             Inr (s\<lparr>poll_needed := False, evaluator := ev, pending_output := text,
                    calls := calls s @ cs\<rparr>)"
    and "text \<noteq> []" "socket s = Some sock" "\<not> self_destruct s"
  shows "eval E expr s =
           Inr (s\<lparr>poll_needed := False, evaluator := ev, pending_output := [],
                  calls := calls s @ cs @ [Send text]\<rparr>)"
  unfolding eval_def assms(1) using assms(2,3,4)
  by (simp add: poll_output_def)

subsection \<open>The branches of the output relay\<close>

lemma poll_output_pending:
  "pending_output s \<noteq> [] \<Longrightarrow> poll_output E s = Inr (pending_output s, s\<lparr>pending_output := []\<rparr>)"
  by (simp add: poll_output_def)

lemma poll_output_result:
  assumes "pending_output s = []" "evaluator s = Some e" "fst (poll_result E e) \<noteq> []"
  shows "poll_output E s =
           Inr (fst (poll_result E e), s\<lparr>evaluator := Some (snd (poll_result E e))\<rparr>)"
  using assms by (cases "poll_result E e") (simp add: poll_output_def Let_def)

lemma poll_output_prompt:
  assumes "pending_output s = []" "evaluator s = Some e" "fst (poll_result E e) = []"
    and "\<not> eval_done s"
  shows "poll_output E s =
           Inr (if input_pending E (snd (poll_result E e)) then
                  (if show_output s \<and> show_prompt s then pending_prompt s else [])
                else if show_output s \<or> eval_error E (snd (poll_result E e)) then
                  (if show_prompt s then normal_prompt s else [])
                else [],
                s\<lparr>evaluator := Some (snd (poll_result E e)), eval_done := True\<rparr>)"
  using assms by (cases "poll_result E e") (simp add: poll_output_def Let_def)

lemma poll_output_drained:
  assumes "pending_output s = []" "evaluator s = Some e" "fst (poll_result E e) = []"
    and "eval_done s"
  shows "poll_output E s = Inr ([], s\<lparr>evaluator := Some (snd (poll_result E e))\<rparr>)"
  using assms by (cases "poll_result E e") (simp add: poll_output_def Let_def)

lemma poll_chunks_drained:
  "pending_output s = [] \<Longrightarrow> eval_done s \<Longrightarrow> evaluator s = Some e \<Longrightarrow> quiet E n e \<Longrightarrow>
     \<exists>s'. poll_chunks E n s = Inr (replicate n [], s') \<and> pending_output s' = [] \<and> eval_done s'"
proof (induction n arbitrary: s e)
  case 0
  then show ?case by simp
next
  case (Suc n)
  let ?e = "snd (poll_result E e)"
  let ?s = "s\<lparr>evaluator := Some ?e\<rparr>"
  from Suc.prems have q: "fst (poll_result E e) = []" "quiet E n ?e" by simp_all
  have step: "poll_output E s = Inr ([], ?s)"
    using poll_output_drained [OF Suc.prems(1) Suc.prems(3) q(1) Suc.prems(2)] .
  have "\<exists>s'. poll_chunks E n ?s = Inr (replicate n [], s') \<and> pending_output s' = [] \<and> eval_done s'"
    using Suc.prems by (intro Suc.IH [of ?s ?e] q(2)) simp_all
  then show ?case by (auto simp: step)
qed

subsection \<open>What a submitted line leaves in place\<close>

text \<open>
  No member function assigns the prompts after construction, and a call of \<^verbatim>\<open>eval\<close> that
  starts with an empty queue ends with an empty queue: text queued by the line discipline
  is taken by the \<^verbatim>\<open>poll_output\<close> of the same call. A constructed session therefore keeps
  its abort prompt and has nothing queued whenever a line is submitted.
\<close>

lemma do_eval_fields:
  "do_eval E input s = Inr s1 \<Longrightarrow>
     pending_output s1 = pending_output s \<and> abort_prompt s1 = abort_prompt s \<and>
     normal_prompt s1 = normal_prompt s \<and> self_destruct s1 = self_destruct s \<and>
     socket s1 = socket s \<and> evaluator s1 \<noteq> None"
  by (auto simp: do_eval_def Let_def split: option.splits)

lemma line_discipline_fields:
  "line_discipline E expr s = Inr s1 \<Longrightarrow>
     abort_prompt s1 = abort_prompt s \<and> normal_prompt s1 = normal_prompt s \<and>
     socket s1 = socket s \<and>
     (pending_output s = [] \<and> \<not> poll_needed s \<and> poll_needed s1 \<longrightarrow> pending_output s1 = [])"
  unfolding line_discipline_def Let_def
  by (auto simp: put_output_def dest!: do_eval_fields
      split: if_splits iac_hit.splits option.splits sum.splits)

lemma poll_output_fields:
  "poll_output E s = Inr (r, s1) \<Longrightarrow>
     pending_output s1 = [] \<and> abort_prompt s1 = abort_prompt s \<and>
     normal_prompt s1 = normal_prompt s \<and> socket s1 = socket s \<and>
     self_destruct s1 = self_destruct s"
  by (cases "poll_result E (the (evaluator s))")
     (auto simp: poll_output_def Let_def split: if_splits option.splits)

lemma dtor_fields:
  "pending_output (dtor s) = pending_output s \<and> abort_prompt (dtor s) = abort_prompt s \<and>
   normal_prompt (dtor s) = normal_prompt s \<and> socket (dtor s) = socket s"
  by (simp add: dtor_def Let_def split: option.splits)

lemma eval_fields:
  assumes "eval E expr s = Inr s'"
  shows "abort_prompt s' = abort_prompt s \<and> normal_prompt s' = normal_prompt s \<and>
         socket s' = socket s \<and> (pending_output s = [] \<longrightarrow> pending_output s' = [])"
proof -
  from assms obtain s1 where ld: "line_discipline E expr (s\<lparr>poll_needed := False\<rparr>) = Inr s1"
    by (auto simp: eval_def split: sum.splits)
  note f1 = line_discipline_fields [OF ld]
  show ?thesis
  proof (cases "poll_needed s1")
    case True
    with assms ld f1 show ?thesis
      by (auto simp: eval_def Let_def dtor_fields split: if_splits option.splits)
  next
    case False
    with assms ld obtain r s2 where po: "poll_output E s1 = Inr (r, s2)"
      by (auto simp: eval_def split: sum.splits)
    note f2 = poll_output_fields [OF po]
    from assms ld False po f1 f2 show ?thesis
      by (auto simp: eval_def Let_def dtor_fields split: if_splits option.splits)
  qed
qed

lemma ctor_fields:
  "pending_output (GenericShell ed pn) = [] \<and> \<not> self_destruct (GenericShell ed pn) \<and>
   socket (GenericShell ed pn) = None \<and> evaluator (GenericShell ed pn) = None"
  by (simp add: GenericShell_def)

section \<open>Properties of the shell\<close>

text \<open>
  Throughout, a line is shorter than \<open>2 ^ 31\<close> bytes, so that its length fits the
  \<^verbatim>\<open>int\<close> indices of the scan; a live session has an evaluator installed, is bound to a
  socket, has not been told to self-destruct, and has no output left queued from the
  previous line.
\<close>

subsection \<open>Telnet interrupt and abort\<close>

text \<open>
  C2, as stated, fails: the scan runs backward from the end of the line and the command
  nearest the end decides. In the line IAC IP IAC EL the window contains IAC IP at
  position 0, but the scan meets IAC EL first: the evaluator is not interrupted and the
  normal prompt is relayed instead of the acknowledgment.
\<close>

theorem telnet_interrupt_shadowed_by_erase:
  "0 \<in> window [IAC, IP, IAC, EL] \<and> abort_at [IAC, IP, IAC, EL] 0 \<and>
   eval toy_eval [IAC, IP, IAC, EL] (session idle) =
     Inr ((session idle)\<lparr>calls := [Send ''> '']\<rparr>)"
  by (simp add: eval_def line_discipline_def to_int_def iac_scan.simps byte_defs
      get_prompt_def put_output_def poll_output_def session_def GenericShell_def
      toy_eval_def idle_def window_def abort_at_def)

text \<open>
  C2, amended: when the trailing 20-byte window of a line holds IAC followed by IP or AO
  at a position \<open>j\<close>, and no IAC EL starts at a later position of the window, submitting
  the line to a live session whose abort prompt is the constructor's starts no evaluation
  worker, calls \<^verbatim>\<open>interrupt\<close> and \<^verbatim>\<open>clear_pending\<close> once each, and sends exactly the four bytes
  0xFF 0xFB 0x06 0x0A.
\<close>

theorem telnet_interrupt_acknowledged:
  assumes "length expr < 2 ^ 31"
    and "j \<in> window expr" "abort_at expr j"
    and "\<forall>k\<in>window expr. j < k \<longrightarrow> \<not> erase_at expr k"
    and "evaluator s = Some e" "socket s = Some sock" "\<not> self_destruct s"
    and "pending_output s = []"
    and "abort_prompt s = abort_prompt (GenericShell ed pn :: 'e shell)"
  shows "\<exists>s'. eval E expr s = Inr s' \<and>
           calls s' = calls s @
             [Interrupt, Clear_pending, Send [CHR 0xFF, CHR 0xFB, CHR 0x06, CHR 0x0A]] \<and>
           eval_expr_calls (calls s') = eval_expr_calls (calls s)"
proof -
  have ne: "expr \<noteq> []" using assms(2) by (auto simp: window_def)
  have ev: "evaluator (s\<lparr>poll_needed := False\<rparr>) = Some e" using assms(5) by simp
  have ap: "abort_prompt s = [CHR 0xFF, CHR 0xFB, CHR 0x06, CHR 0x0A]"
    using assms(9) by (simp add: ctor_abort_prompt)
  have "line_discipline E expr (s\<lparr>poll_needed := False\<rparr>) =
          Inr (s\<lparr>poll_needed := False, evaluator := Some (clear_pending E (interrupt E e)),
                 pending_output := [CHR 0xFF, CHR 0xFB, CHR 0x06, CHR 0x0A],
                 calls := calls s @ [Interrupt, Clear_pending]\<rparr>)"
    unfolding ld_abort [OF ne assms(1) ev assms(2,3,4)] using assms(8) ap by simp
  from eval_relayed [OF this _ assms(6,7)] show ?thesis
    by (simp add: eval_expr_calls_append)
qed

theorem telnet_interrupt_acknowledged_witness:
  "\<exists>s'. eval toy_eval [IAC, EL, IAC, IP, CHR ''x''] (session idle) = Inr s' \<and>
        calls s' = [Interrupt, Clear_pending, Send [CHR 0xFF, CHR 0xFB, CHR 0x06, CHR 0x0A]] \<and>
        eval_expr_calls (calls s') = []"
proof -
  let ?l = "[IAC, EL, IAC, IP, CHR ''x'']"
  have len: "length ?l < 2 ^ 31" by simp
  have j: "2 \<in> window ?l" by (simp add: window_def)
  have a: "abort_at ?l 2" by (simp add: abort_at_def)
  have n: "\<forall>k\<in>window ?l. 2 < k \<longrightarrow> \<not> erase_at ?l k"
    by (simp add: window_def erase_at_def byte_defs atLeastLessThan_upt)
  have ev: "evaluator (session idle) = Some idle" by (simp add: session_def)
  have so: "socket (session idle) = Some 0" by (simp add: session_def)
  have sd: "\<not> self_destruct (session idle)" by (simp add: session_def GenericShell_def)
  have po: "pending_output (session idle) = []" by (simp add: session_def GenericShell_def)
  have ap: "abort_prompt (session idle) = abort_prompt (GenericShell False False :: toy shell)"
    by (simp add: session_def)
  show ?thesis
    using telnet_interrupt_acknowledged [OF len j a n ev so sd po ap, of toy_eval]
    by (simp add: session_def GenericShell_def)
qed

subsection \<open>The output relay\<close>

text \<open>
  C3: \<^verbatim>\<open>poll_output\<close> serves its sources in strict priority. Queued output, when there is
  any, is returned whole and the queue is cleared. Otherwise the evaluator's output is
  returned when it is not empty. Otherwise, with the latch \<^verbatim>\<open>eval_done\<close> not yet set, the
  latch is set and the terminal prompt is computed and returned: the pending prompt when
  input is pending and both output and prompts are shown, the normal prompt when no input
  is pending, prompts are shown and output is shown or the evaluator reports an error, and
  the empty string in every other case. Once the latch is
  set and nothing is queued, every further call returns the empty string for as long as the
  evaluator has nothing buffered, and leaves the latch set; \<^verbatim>\<open>do_eval\<close>, which starts the
  next evaluation, is what resets the latch.
\<close>

theorem poll_output_priority:
  "(pending_output s \<noteq> [] \<longrightarrow>
      poll_output E s = Inr (pending_output s, s\<lparr>pending_output := []\<rparr>)) \<and>
   (pending_output s = [] \<and> evaluator s = Some e \<and> fst (poll_result E e) \<noteq> [] \<longrightarrow>
      poll_output E s =
        Inr (fst (poll_result E e), s\<lparr>evaluator := Some (snd (poll_result E e))\<rparr>)) \<and>
   (pending_output s = [] \<and> evaluator s = Some e \<and> fst (poll_result E e) = [] \<and>
    \<not> eval_done s \<longrightarrow>
      poll_output E s =
        Inr (if input_pending E (snd (poll_result E e)) then
               (if show_output s \<and> show_prompt s then pending_prompt s else [])
             else if show_output s \<or> eval_error E (snd (poll_result E e)) then
               (if show_prompt s then normal_prompt s else [])
             else [],
             s\<lparr>evaluator := Some (snd (poll_result E e)), eval_done := True\<rparr>)) \<and>
   (pending_output s = [] \<and> evaluator s = Some e \<and> eval_done s \<and> quiet E n e \<longrightarrow>
      (\<exists>s'. poll_chunks E n s = Inr (replicate n [], s') \<and>
            pending_output s' = [] \<and> eval_done s')) \<and>
   (evaluator s = Some e \<longrightarrow> (\<exists>s'. do_eval E input s = Inr s' \<and> \<not> eval_done s'))"
proof (intro conjI impI)
  show "poll_output E s = Inr (pending_output s, s\<lparr>pending_output := []\<rparr>)"
    if "pending_output s \<noteq> []" using that by (rule poll_output_pending)
  show "poll_output E s =
        Inr (fst (poll_result E e), s\<lparr>evaluator := Some (snd (poll_result E e))\<rparr>)"
    if "pending_output s = [] \<and> evaluator s = Some e \<and> fst (poll_result E e) \<noteq> []"
    using that by (intro poll_output_result) simp_all
  show "poll_output E s =
        Inr (if input_pending E (snd (poll_result E e)) then
               (if show_output s \<and> show_prompt s then pending_prompt s else [])
             else if show_output s \<or> eval_error E (snd (poll_result E e)) then
               (if show_prompt s then normal_prompt s else [])
             else [],
             s\<lparr>evaluator := Some (snd (poll_result E e)), eval_done := True\<rparr>)"
    if "pending_output s = [] \<and> evaluator s = Some e \<and> fst (poll_result E e) = [] \<and>
        \<not> eval_done s"
    using that by (intro poll_output_prompt) simp_all
  show "\<exists>s'. poll_chunks E n s = Inr (replicate n [], s') \<and>
            pending_output s' = [] \<and> eval_done s'"
    if "pending_output s = [] \<and> evaluator s = Some e \<and> eval_done s \<and> quiet E n e"
    using that by (intro poll_chunks_drained [of s e]) simp_all
  show "\<exists>s'. do_eval E input s = Inr s' \<and> \<not> eval_done s'"
    if "evaluator s = Some e" using do_eval_Some [OF that, of E input] by simp
qed

theorem poll_output_priority_witness:
  "poll_output toy_eval ((session answering)\<lparr>pending_output := ''ok''\<rparr>) =
     Inr (''ok'', session answering) \<and>
   poll_output toy_eval (session answering) = Inr (''3'', session idle) \<and>
   poll_output toy_eval (session idle) = Inr (''> '', (session idle)\<lparr>eval_done := True\<rparr>) \<and>
   poll_output toy_eval (session midway) =
     Inr (''... '', (session midway)\<lparr>eval_done := True\<rparr>) \<and>
   (\<exists>s'. poll_chunks toy_eval 3 ((session idle)\<lparr>eval_done := True\<rparr>) = Inr ([[], [], []], s') \<and>
         pending_output s' = [] \<and> eval_done s') \<and>
   (\<exists>s'. do_eval toy_eval ''(+ 1 2)'' ((session idle)\<lparr>eval_done := True\<rparr>) = Inr s' \<and>
         \<not> eval_done s')"
proof -
  have q: "quiet toy_eval 3 idle"
    by (simp add: numeral_3_eq_3 toy_eval_def idle_def)
  have i: "(session idle)\<lparr>evaluator := Some idle\<rparr> = session idle"
    by (simp add: session_def)
  show ?thesis
    using poll_output_priority [of "(session answering)\<lparr>pending_output := ''ok''\<rparr>"
        toy_eval answering 0 "[]"]
      poll_output_priority [of "session answering" toy_eval answering 0 "[]"]
      poll_output_priority [of "session idle" toy_eval idle 0 "[]"]
      poll_output_priority [of "session midway" toy_eval midway 0 "[]"]
      poll_output_priority [of "(session idle)\<lparr>eval_done := True\<rparr>" toy_eval idle 3 "''(+ 1 2)''"]
      q
    by (simp add: session_def GenericShell_def toy_eval_def idle_def midway_def
        answering_def numeral_3_eq_3)
qed

subsection \<open>Leaving the shell\<close>

text \<open>
  C4: the exit test of \<^verbatim>\<open>line_discipline\<close> compares only the last byte of the line with
  EOT, while the single period is required to be the whole line. The line \<open>ab\<close> followed
  by EOT, which is not a lone EOT byte, makes an idle session leave the shell: the farewell
  is sent, the socket is detached, the session is deleted, and nothing is evaluated.
\<close>

theorem trailing_EOT_leaves_shell:
  "eval toy_eval (''ab'' @ [EOT]) (session idle) =
     Inr ((session idle)\<lparr>self_destruct := True, deleted := True,
            calls := [Send ''Exiting the shell\<newline>'', SendPrompt, SetShell_null]\<rparr>)"
  by (simp add: eval_def line_discipline_def to_int_def iac_scan.simps byte_defs dtor_def
      get_prompt_def put_output_def poll_output_def session_def GenericShell_def
      toy_eval_def idle_def)

subsection \<open>The prompt of a drained evaluation\<close>

text \<open>
  C5, as stated, fails: with a multi-line expression pending, prompts shown and output
  hushed, nothing is returned, although prompts are not suppressed and the pending prompt
  is not empty.
\<close>

theorem pending_prompt_needs_show_output:
  "show_prompt (hush_output True (session midway)) \<and>
   input_pending toy_eval midway \<and>
   pending_prompt (hush_output True (session midway)) = ''... '' \<and>
   poll_output toy_eval (hush_output True (session midway)) =
     Inr ([], (hush_output True (session midway))\<lparr>eval_done := True\<rparr>)"
  by (simp add: poll_output_def hush_output_def session_def GenericShell_def
      toy_eval_def midway_def)

text \<open>
  C5, amended: when nothing is queued, the evaluator has no output and the latch is not
  yet set, \<^verbatim>\<open>poll_output\<close> sets the latch and returns: with a multi-line expression
  pending, the pending prompt if both output and prompts are shown, and nothing otherwise;
  with none pending, if output is shown or the evaluator reports an error, the normal
  prompt if prompts are shown and nothing otherwise; in every other case nothing.
\<close>

theorem drained_prompt_selection:
  assumes "pending_output s = []" "evaluator s = Some e" "fst (poll_result E e) = []"
    and "\<not> eval_done s"
  shows "\<exists>s'. poll_output E s =
           Inr (if input_pending E (snd (poll_result E e)) then
                  (if show_output s \<and> show_prompt s then pending_prompt s else [])
                else if show_output s \<or> eval_error E (snd (poll_result E e)) then
                  (if show_prompt s then normal_prompt s else [])
                else [], s') \<and> eval_done s'"
  using poll_output_prompt [OF assms] by simp

theorem drained_prompt_selection_witness:
  "\<exists>s'. poll_output toy_eval (hush_output True (session failed)) = Inr (''> '', s') \<and>
        eval_done s'"
proof -
  let ?s = "hush_output True (session failed)"
  have po: "pending_output ?s = []" by (simp add: hush_output_def session_def GenericShell_def)
  have ev: "evaluator ?s = Some failed" by (simp add: hush_output_def session_def)
  have r: "fst (poll_result toy_eval failed) = []" by (simp add: toy_eval_def failed_def)
  have ed: "\<not> eval_done ?s" by (simp add: hush_output_def session_def GenericShell_def)
  show ?thesis
    using drained_prompt_selection [OF po ev r ed]
    by (simp add: hush_output_def session_def GenericShell_def toy_eval_def failed_def)
qed

subsection \<open>Lines that are evaluated\<close>

text \<open>
  C6: a non-empty line with no telnet command in its trailing window, whose last byte is
  none of ESC, CAN and SYN, and which does not take the exit branch, starts exactly one
  evaluation worker when it is submitted to a live session, and that worker calls
  \<^verbatim>\<open>eval_expr\<close> on the line with a newline appended.
\<close>

theorem plain_line_evaluated_once:
  assumes "expr \<noteq> []" "length expr < 2 ^ 31"
    and "\<forall>j\<in>window expr. \<not> abort_at expr j \<and> \<not> erase_at expr j"
    and "\<not> (last expr = ESC \<or> last expr = CAN \<or> last expr = SYN)"
    and "\<not> (\<not> input_pending E e \<and> (last expr = EOT \<or> expr = ''.''))"
    and "evaluator s = Some e" "\<not> self_destruct s"
  shows "\<exists>s'. eval E expr s = Inr s' \<and>
           calls s' = calls s @ join_calls s @
             [Begin_eval, Start (Eval_wrapper (expr @ [CHR 0x0A])), Start Poll_wrapper] \<and>
           eval_expr_calls (calls s') = eval_expr_calls (calls s) @ [expr @ [CHR 0x0A]]"
proof -
  have ev: "evaluator (s\<lparr>poll_needed := False\<rparr>) = Some e" using assms(6) by simp
  have "line_discipline E expr (s\<lparr>poll_needed := False\<rparr>) =
          do_eval E (expr @ [NL]) (s\<lparr>poll_needed := False\<rparr>)"
    unfolding ld_no_hit [OF assms(1,2) ev assms(3)] using assms(4,5) by auto
  from eval_started [OF this assms(6,7)] show ?thesis by (simp add: NL_def)
qed

theorem plain_line_evaluated_once_witness:
  "\<exists>s'. eval toy_eval ''(+ 1 2)'' (session idle) = Inr s' \<and>
        calls s' = [Begin_eval, Start (Eval_wrapper ''(+ 1 2)\<newline>''), Start Poll_wrapper] \<and>
        eval_expr_calls (calls s') = [''(+ 1 2)\<newline>'']"
proof -
  let ?l = "''(+ 1 2)''"
  have ne: "?l \<noteq> []" by simp
  have len: "length ?l < 2 ^ 31" by simp
  have no: "\<forall>j\<in>window ?l. \<not> abort_at ?l j \<and> \<not> erase_at ?l j"
    by (simp add: window_def abort_at_def erase_at_def byte_defs atLeastLessThan_upt)
  have c: "\<not> (last ?l = ESC \<or> last ?l = CAN \<or> last ?l = SYN)" by (simp add: byte_defs)
  have x: "\<not> (\<not> input_pending toy_eval idle \<and> (last ?l = EOT \<or> ?l = ''.''))"
    by (simp add: byte_defs)
  have ev: "evaluator (session idle) = Some idle" by (simp add: session_def)
  have sd: "\<not> self_destruct (session idle)" by (simp add: session_def GenericShell_def)
  show ?thesis
    using plain_line_evaluated_once [OF ne len no c x ev sd]
    by (simp add: session_def GenericShell_def join_calls_def)
qed

text \<open>
  C7: a zero-length line submitted to a live session starts exactly one evaluation worker,
  which calls \<^verbatim>\<open>eval_expr\<close> on the one-character string holding a newline; no property of
  the line, of the pending input or of the toggles is consulted.
\<close>

theorem empty_line_evaluates_newline:
  assumes "evaluator s = Some e" "\<not> self_destruct s"
  shows "\<exists>s'. eval E [] s = Inr s' \<and>
           calls s' = calls s @ join_calls s @
             [Begin_eval, Start (Eval_wrapper [CHR 0x0A]), Start Poll_wrapper] \<and>
           eval_expr_calls (calls s') = eval_expr_calls (calls s) @ [[CHR 0x0A]]"
  using eval_started [OF ld_empty assms] by (simp add: NL_def)

theorem empty_line_evaluates_newline_witness:
  "\<exists>s'. eval toy_eval [] (session midway) = Inr s' \<and>
        calls s' = [Begin_eval, Start (Eval_wrapper [CHR 0x0A]), Start Poll_wrapper] \<and>
        eval_expr_calls (calls s') = [[CHR 0x0A]]"
proof -
  have ev: "evaluator (session midway) = Some midway" by (simp add: session_def)
  have sd: "\<not> self_destruct (session midway)" by (simp add: session_def GenericShell_def)
  show ?thesis
    using empty_line_evaluates_newline [OF ev sd, of toy_eval]
    by (simp add: session_def GenericShell_def join_calls_def)
qed

subsection \<open>Raw control bytes\<close>

text \<open>
  C8: a line whose last byte is ESC (0x1B), CAN (0x18) or SYN (0x16) and whose trailing
  window holds no telnet command, submitted to a live session, starts no evaluation worker,
  calls \<^verbatim>\<open>interrupt\<close> and \<^verbatim>\<open>clear_pending\<close>, and sends a newline followed by the normal
  prompt.
\<close>

theorem control_byte_interrupts:
  assumes "expr \<noteq> []" "length expr < 2 ^ 31"
    and "last expr = ESC \<or> last expr = CAN \<or> last expr = SYN"
    and "\<forall>j\<in>window expr. \<not> abort_at expr j \<and> \<not> erase_at expr j"
    and "evaluator s = Some e" "socket s = Some sock" "\<not> self_destruct s"
    and "pending_output s = []"
  shows "\<exists>s'. eval E expr s = Inr s' \<and>
           calls s' = calls s @
             [Interrupt, Clear_pending, Send (CHR 0x0A # normal_prompt s)] \<and>
           eval_expr_calls (calls s') = eval_expr_calls (calls s)"
proof -
  have ev: "evaluator (s\<lparr>poll_needed := False\<rparr>) = Some e" using assms(5) by simp
  have "line_discipline E expr (s\<lparr>poll_needed := False\<rparr>) =
          Inr (s\<lparr>poll_needed := False, evaluator := Some (clear_pending E (interrupt E e)),
                 pending_output := CHR 0x0A # normal_prompt s,
                 calls := calls s @ [Interrupt, Clear_pending]\<rparr>)"
    unfolding ld_no_hit [OF assms(1,2) ev assms(4)] using assms(3,8) by (auto simp: NL_def)
  from eval_relayed [OF this _ assms(6,7)] show ?thesis
    by (simp add: eval_expr_calls_append)
qed

theorem control_byte_interrupts_witness:
  "\<exists>s'. eval toy_eval (''(loop'' @ [CAN]) (session midway) = Inr s' \<and>
        calls s' = [Interrupt, Clear_pending, Send ''\<newline>> ''] \<and>
        eval_expr_calls (calls s') = []"
proof -
  let ?l = "''(loop'' @ [CAN]"
  have ne: "?l \<noteq> []" by simp
  have len: "length ?l < 2 ^ 31" by simp
  have c: "last ?l = ESC \<or> last ?l = CAN \<or> last ?l = SYN" by simp
  have no: "\<forall>j\<in>window ?l. \<not> abort_at ?l j \<and> \<not> erase_at ?l j"
    by (simp add: window_def abort_at_def erase_at_def byte_defs atLeastLessThan_upt)
  have ev: "evaluator (session midway) = Some midway" by (simp add: session_def)
  have so: "socket (session midway) = Some 0" by (simp add: session_def)
  have sd: "\<not> self_destruct (session midway)" by (simp add: session_def GenericShell_def)
  have po: "pending_output (session midway) = []" by (simp add: session_def GenericShell_def)
  show ?thesis
    using control_byte_interrupts [OF ne len c no ev so sd po, of toy_eval]
    by (simp add: session_def GenericShell_def)
qed

text \<open>
  C10: on the raw control byte path the newline and the normal prompt are queued whatever
  the two toggles \<^verbatim>\<open>show_output\<close> and \<^verbatim>\<open>show_prompt\<close> are set to. On the erase-line path
  (IAC EL nearest the end of the window) the text of \<^verbatim>\<open>get_prompt\<close> is queued: the prompt
  for the current pending state when prompts are shown, and the empty string when they are
  not.
\<close>

theorem control_byte_prompt_unconditional:
  assumes "length expr < 2 ^ 31" "evaluator s = Some e"
    and "t = s\<lparr>show_output := so, show_prompt := sp\<rparr>"
  shows
   "(expr \<noteq> [] \<and> (last expr = ESC \<or> last expr = CAN \<or> last expr = SYN) \<and>
     (\<forall>j\<in>window expr. \<not> abort_at expr j \<and> \<not> erase_at expr j) \<longrightarrow>
       (\<exists>t'. line_discipline E expr t = Inr t' \<and>
             pending_output t' = pending_output s @ CHR 0x0A # normal_prompt s)) \<and>
    (j \<in> window expr \<and> erase_at expr j \<and>
     (\<forall>k\<in>window expr. j < k \<longrightarrow> \<not> abort_at expr k) \<longrightarrow>
       (\<exists>t'. line_discipline E expr t = Inr t' \<and>
             pending_output t' = pending_output s @
               (if sp then (if input_pending E e then pending_prompt s else normal_prompt s)
                else [])))"
proof (intro conjI impI)
  have ev: "evaluator t = Some e" using assms(2,3) by simp
  show "\<exists>t'. line_discipline E expr t = Inr t' \<and>
             pending_output t' = pending_output s @ CHR 0x0A # normal_prompt s"
    if h: "expr \<noteq> [] \<and> (last expr = ESC \<or> last expr = CAN \<or> last expr = SYN) \<and>
     (\<forall>j\<in>window expr. \<not> abort_at expr j \<and> \<not> erase_at expr j)"
  proof -
    from h have ne: "expr \<noteq> []"
      and no: "\<forall>j\<in>window expr. \<not> abort_at expr j \<and> \<not> erase_at expr j" by simp_all
    show ?thesis
      unfolding ld_no_hit [OF ne assms(1) ev no] using h assms(3) by (auto simp: NL_def)
  qed
  show "\<exists>t'. line_discipline E expr t = Inr t' \<and>
             pending_output t' = pending_output s @
               (if sp then (if input_pending E e then pending_prompt s else normal_prompt s)
                else [])"
    if h: "j \<in> window expr \<and> erase_at expr j \<and>
     (\<forall>k\<in>window expr. j < k \<longrightarrow> \<not> abort_at expr k)"
  proof -
    from h have j: "j \<in> window expr" and e: "erase_at expr j"
      and no: "\<forall>k\<in>window expr. j < k \<longrightarrow> \<not> abort_at expr k" by simp_all
    from j have ne: "expr \<noteq> []" by (auto simp: window_def)
    show ?thesis
      unfolding ld_erase [OF ne assms(1) j e no] using assms(2,3)
      by (simp add: get_prompt_def put_output_def)
  qed
qed

theorem control_byte_prompt_unconditional_witness:
  "(\<exists>t'. line_discipline toy_eval (''(loop'' @ [ESC])
            ((session idle)\<lparr>show_output := False, show_prompt := False\<rparr>) = Inr t' \<and>
         pending_output t' = ''\<newline>> '') \<and>
   (\<exists>t'. line_discipline toy_eval [IAC, EL]
            ((session idle)\<lparr>show_output := False, show_prompt := False\<rparr>) = Inr t' \<and>
         pending_output t' = [])"
proof -
  let ?a = "''(loop'' @ [ESC]"
  let ?b = "[IAC, EL]"
  have ev: "evaluator (session idle) = Some idle" by (simp add: session_def)
  have a: "?a \<noteq> [] \<and> (last ?a = ESC \<or> last ?a = CAN \<or> last ?a = SYN) \<and>
     (\<forall>j\<in>window ?a. \<not> abort_at ?a j \<and> \<not> erase_at ?a j)"
    by (simp add: window_def abort_at_def erase_at_def byte_defs atLeastLessThan_upt)
  have b: "0 \<in> window ?b \<and> erase_at ?b 0 \<and> (\<forall>k\<in>window ?b. 0 < k \<longrightarrow> \<not> abort_at ?b k)"
    by (simp add: window_def erase_at_def)
  show ?thesis
    using a b
      control_byte_prompt_unconditional [of ?a "session idle" idle _ False False toy_eval 0,
        OF _ ev refl]
      control_byte_prompt_unconditional [of ?b "session idle" idle _ False False toy_eval 0,
        OF _ ev refl]
    by (simp add: session_def GenericShell_def)
qed

subsection \<open>Binding a socket\<close>

text \<open>
  C9: \<^verbatim>\<open>set_socket\<close> on a session that already has a socket fails the assertion and does
  nothing else; on a session without a socket it stores the socket and registers the
  session with it through \<^verbatim>\<open>SetShell\<close>.
\<close>

theorem set_socket_once:
  "(socket s \<noteq> None \<longrightarrow>
      set_socket k s = Inl (Assertion_failed ''Shell already associated with socket!'')) \<and>
   (socket s = None \<longrightarrow>
      set_socket k s = Inr (s\<lparr>socket := Some k, calls := calls s @ [SetShell_this]\<rparr>))"
  by (simp add: set_socket_def OC_ASSERT_def)

theorem set_socket_once_witness:
  "set_socket 1 (session idle) =
     Inl (Assertion_failed ''Shell already associated with socket!'') \<and>
   set_socket 1 (GenericShell False False :: toy shell) =
     Inr ((GenericShell False False)\<lparr>socket := Some 1, calls := [SetShell_this]\<rparr>)"
  using set_socket_once [of "session idle" 1]
    set_socket_once [of "GenericShell False False :: toy shell" 1]
  by (simp add: session_def GenericShell_def)

end
